theory Spec2Isabelle
  imports Main "HOL-Library.Word" "HOL-Library.Signed_Division"
begin

unbundle bit_operations_syntax

section \<open>The JOS kernel monitor (kern/monitor.c)\<close>

text \<open>
  A shallow embedding of the kernel monitor: the tokenizer and dispatcher of \<open>runcmd\<close>,
  the read loop of \<open>monitor\<close>, and the four command handlers. A C string is the list
  of its characters before the terminating NUL; where the code tests \<open>*p\<close> against 0
  the model reads the character with \<open>deref\<close>, which is NUL at the end of the list.
  The \<open>Trapframe\<close> pointer is passed through the code untouched and read by no
  handler, so the model leaves it out.
\<close>

subsection \<open>Console output\<close>

text \<open>
  \<open>cprintf\<close> is the only output channel. The console is the sequence of \<open>cprintf\<close>
  calls made so far, each with its format string and its arguments as the code passes them.
\<close>

type_synonym uint32_t = "32 word"

datatype carg =
    ArgStr string
  | ArgNull
  | ArgInt int
  | ArgU32 uint32_t

datatype cprintf_call = Cprintf string "carg list"

type_synonym console = "cprintf_call list"

definition cprintf :: "string \<Rightarrow> carg list \<Rightarrow> console \<Rightarrow> console" where
  "cprintf fmt args con = con @ [Cprintf fmt args]"

definition TAB :: string where
  "TAB = [CHR 0x09]"

subsection \<open>Machine state and collaborators\<close>

record Eipdebuginfo =
  eip_file :: "string option"
  eip_line :: int
  eip_fn_name :: "string option"
  eip_fn_namelen :: int
  eip_fn_addr :: uint32_t
  eip_fn_narg :: int

text \<open>\<open>memset(&info, 0, sizeof(struct Eipdebuginfo))\<close>: null pointers and zero numbers.\<close>

definition zero_info :: Eipdebuginfo where
  "zero_info = \<lparr>eip_file = None, eip_line = 0, eip_fn_name = None,
                 eip_fn_namelen = 0, eip_fn_addr = 0, eip_fn_narg = 0\<rparr>"

definition str_arg :: "string option \<Rightarrow> carg" where
  "str_arg p = (case p of None \<Rightarrow> ArgNull | Some s \<Rightarrow> ArgStr s)"

text \<open>
  What the handlers read from the kernel around them. None of it is defined in
  kern/monitor.c, so each part is a parameter:
  \<^item> \<open>read_ebp\<close>: the frame pointer on entry to \<open>mon_backtrace\<close>;
  \<^item> \<open>load32\<close>: the 32-bit word stored at a byte address;
  \<^item> \<open>debuginfo_eip\<close>: the symbol resolver, which receives the address and the record
    behind the pointer, and returns its status and the record as it leaves it;
  \<^item> \<open>strtol\<close>: the number parser, returning the value and the unparsed rest
    (\<open>endptr\<close>);
  \<^item> \<open>page_lookup\<close>: for a virtual address of \<open>kern_pgdir\<close>, the physical address of
    the page found (\<open>page2pa(pp)\<close>) and the entry \<open>*pte_p\<close>, or \<open>None\<close> for \<open>NULL\<close>;
  \<^item> \<open>PTE_P\<close>, \<open>PTE_U\<close>, \<open>PTE_W\<close>, \<open>KERNBASE\<close>: constants of inc/mmu.h and
    inc/memlayout.h;
  \<^item> the linker symbols that \<open>mon_kerninfo\<close> prints.
\<close>

record kernel =
  read_ebp :: uint32_t
  load32 :: "uint32_t \<Rightarrow> uint32_t"
  debuginfo_eip :: "uint32_t \<Rightarrow> Eipdebuginfo \<Rightarrow> int \<times> Eipdebuginfo"
  strtol :: "string \<Rightarrow> nat \<Rightarrow> int \<times> string"
  page_lookup :: "uint32_t \<Rightarrow> (uint32_t \<times> uint32_t) option"
  PTE_P :: uint32_t
  PTE_U :: uint32_t
  PTE_W :: uint32_t
  KERNBASE :: uint32_t
  sym_start :: uint32_t
  sym_entry :: uint32_t
  sym_etext :: uint32_t
  sym_edata :: uint32_t
  sym_end :: uint32_t

text \<open>
  Modelled from the spec: the page size \<open>PGSIZE\<close> of inc/mmu.h and the macros
  \<open>ROUNDDOWN\<close> and \<open>ROUNDUP\<close> of inc/types.h, which are not among the sources. The
  spec has a page size of 4096 bytes, and begin rounded down and end rounded up to the
  page size, on 32-bit unsigned addresses.
\<close>

definition PGSIZE :: uint32_t where
  "PGSIZE = 4096"

definition ROUNDDOWN :: "uint32_t \<Rightarrow> uint32_t \<Rightarrow> uint32_t" where
  "ROUNDDOWN a n = a - a mod n"

definition ROUNDUP :: "uint32_t \<Rightarrow> uint32_t \<Rightarrow> uint32_t" where
  "ROUNDUP a n = ROUNDDOWN (a + n - 1) n"

subsection \<open>C strings\<close>

definition NUL :: char where
  "NUL = CHR 0x00"

definition deref :: "string \<Rightarrow> char" where
  "deref p = (case p of [] \<Rightarrow> NUL | c # _ \<Rightarrow> c)"

definition cstring :: "string \<Rightarrow> string" where
  "cstring p = takeWhile (\<lambda>c. c \<noteq> NUL) p"

definition WHITESPACE :: string where
  "WHITESPACE = [CHR 0x09, CHR 0x0D, CHR 0x0A, CHR '' '']"

definition MAXARGS :: nat where
  "MAXARGS = 16"

text \<open>The test \<open>*buf && strchr(WHITESPACE, *buf)\<close>.\<close>

definition is_space :: "char \<Rightarrow> bool" where
  "is_space c \<longleftrightarrow> c \<noteq> NUL \<and> c \<in> set WHITESPACE"

text \<open>The test \<open>*buf && !strchr(WHITESPACE, *buf)\<close>.\<close>

definition is_arg_char :: "char \<Rightarrow> bool" where
  "is_arg_char c \<longleftrightarrow> c \<noteq> NUL \<and> c \<notin> set WHITESPACE"

subsection \<open>The tokenizer of \<open>runcmd\<close>\<close>

text \<open>\<open>while (*buf && strchr(WHITESPACE, *buf)) *buf++ = 0;\<close>\<close>

fun gobble :: "string \<Rightarrow> string" where
  "gobble [] = []"
| "gobble (c # cs) = (if is_space c then gobble cs else c # cs)"

text \<open>\<open>while (*buf && !strchr(WHITESPACE, *buf)) buf++;\<close>\<close>

fun scan :: "string \<Rightarrow> string" where
  "scan [] = []"
| "scan (c # cs) = (if is_arg_char c then scan cs else c # cs)"

text \<open>
  The string that \<open>argv[argc]\<close> points at once the line is cut up: the characters from
  \<open>buf\<close> to the first whitespace (overwritten with 0 by the next \<open>gobble\<close>) or NUL.
\<close>

fun arg_at :: "string \<Rightarrow> string" where
  "arg_at [] = []"
| "arg_at (c # cs) = (if is_arg_char c then c # arg_at cs else [])"

lemma length_gobble: "length (gobble buf) \<le> length buf"
  by (induction buf) auto

lemma length_scan: "length (scan buf) \<le> length buf"
  by (induction buf) auto

lemma gobble_head: "gobble buf = c # cs \<Longrightarrow> \<not> is_space c"
  by (induction buf) (auto split: if_splits)

lemma scan_shorter:
  assumes "deref (gobble buf) \<noteq> NUL"
  shows "length (scan (gobble buf)) < length buf"
proof (cases "gobble buf")
  case Nil
  with assms show ?thesis by (simp add: deref_def)
next
  case (Cons c cs)
  with assms have "c \<noteq> NUL" by (simp add: deref_def)
  moreover from Cons have "\<not> is_space c" by (rule gobble_head)
  ultimately have "is_arg_char c" by (simp add: is_space_def is_arg_char_def)
  with Cons have "scan (gobble buf) = scan cs" by simp
  moreover have "length (scan cs) \<le> length cs" by (rule length_scan)
  moreover have "length (gobble buf) \<le> length buf" by (rule length_gobble)
  ultimately show ?thesis using Cons by simp
qed

text \<open>
  The parse loop. \<open>argv\<close> holds the arguments saved so far and \<open>argc\<close> is its length;
  \<open>None\<close> is the return through "Too many arguments".
\<close>

function tokenize :: "string list \<Rightarrow> string \<Rightarrow> string list option" where
  "tokenize argv buf =
     (let buf' = gobble buf in
      if deref buf' = NUL then Some argv
      else if length argv = MAXARGS - 1 then None
      else tokenize (argv @ [arg_at buf']) (scan buf'))"
  by pat_completeness auto
termination
  by (relation "measure (\<lambda>(argv, buf). length buf)") (auto simp: scan_shorter)

declare tokenize.simps [simp del]

subsection \<open>Commands and dispatch\<close>

text \<open>
  A handler gets the kernel state, the argument vector (\<open>argc\<close> is its length) and the
  console, and returns its \<open>int\<close> result and the console; \<open>None\<close> when it never returns.
\<close>

type_synonym handler = "kernel \<Rightarrow> string list \<Rightarrow> console \<Rightarrow> (int \<times> console) option"

record Command =
  name :: string
  desc :: string
  func :: handler

text \<open>\<open>for (i = 0; i < ARRAY_SIZE(commands); i++) if (strcmp(argv[0], commands[i].name) == 0) ...\<close>\<close>

fun lookup :: "Command list \<Rightarrow> kernel \<Rightarrow> string list \<Rightarrow> console \<Rightarrow> (int \<times> console) option" where
  "lookup [] k argv con = Some (0, cprintf ''Unknown command '%s'\<newline>'' [ArgStr (argv ! 0)] con)"
| "lookup (c # cs) k argv con =
     (if argv ! 0 = name c then func c k argv con else lookup cs k argv con)"

definition runcmd :: "Command list \<Rightarrow> kernel \<Rightarrow> string \<Rightarrow> console \<Rightarrow> (int \<times> console) option" where
  "runcmd cmds k buf con =
     (case tokenize [] buf of
        None \<Rightarrow> Some (0, cprintf ''Too many arguments (max %d)\<newline>'' [ArgInt (int MAXARGS)] con)
      | Some argv \<Rightarrow>
          if length argv = 0 then Some (0, con)
          else lookup cmds k argv con)"

subsection \<open>\<open>mon_help\<close> and \<open>mon_kerninfo\<close>\<close>

text \<open>
  The names and descriptions of the \<open>commands\<close> array. \<open>mon_help\<close> reads these two
  fields of every entry while the array holds \<open>mon_help\<close> itself, so the two columns
  are given first and the array with its handlers below.
\<close>

definition command_info :: "(string \<times> string) list" where
  "command_info =
     [(''help'', ''Display this list of commands''),
      (''kerninfo'', ''Display information about the kernel''),
      (''backtrace'', ''Display backtrace''),
      (''showmappings'', ''Display mappings between physical address and virtual address'')]"

fun mon_help_loop :: "(string \<times> string) list \<Rightarrow> console \<Rightarrow> console" where
  "mon_help_loop [] con = con"
| "mon_help_loop ((n, d) # rest) con =
     mon_help_loop rest (cprintf ''%s - %s\<newline>'' [ArgStr n, ArgStr d] con)"

definition mon_help :: handler where
  "mon_help k argv con = Some (0, mon_help_loop command_info con)"

text \<open>
  \<open>end - entry\<close> is a signed pointer difference; \<open>ROUNDUP\<close> computes on its
  \<open>uint32_t\<close> cast and casts back, and the division by 1024 is C's signed division.
\<close>

definition mon_kerninfo :: handler where
  "mon_kerninfo k argv con =
     (let con1 = cprintf ''Special kernel symbols:\<newline>'' [] con;
          con2 = cprintf ''  _start                  %08x (phys)\<newline>'' [ArgU32 (sym_start k)] con1;
          con3 = cprintf ''  entry  %08x (virt)  %08x (phys)\<newline>''
                   [ArgU32 (sym_entry k), ArgU32 (sym_entry k - KERNBASE k)] con2;
          con4 = cprintf ''  etext  %08x (virt)  %08x (phys)\<newline>''
                   [ArgU32 (sym_etext k), ArgU32 (sym_etext k - KERNBASE k)] con3;
          con5 = cprintf ''  edata  %08x (virt)  %08x (phys)\<newline>''
                   [ArgU32 (sym_edata k), ArgU32 (sym_edata k - KERNBASE k)] con4;
          con6 = cprintf ''  end    %08x (virt)  %08x (phys)\<newline>''
                   [ArgU32 (sym_end k), ArgU32 (sym_end k - KERNBASE k)] con5;
          con7 = cprintf ''Kernel executable memory footprint: %dKB\<newline>''
                   [ArgInt (sint (ROUNDUP (sym_end k - sym_entry k) 1024) sdiv 1024)] con6
      in Some (0, con7))"

subsection \<open>\<open>mon_backtrace\<close>\<close>

text \<open>
  \<open>ebp\<close> is a \<open>uint32_t*\<close>: \<open>*(ebp + n)\<close> is the word at byte address
  \<open>ebp + 4 * n\<close>.
\<close>

definition word_at :: "kernel \<Rightarrow> uint32_t \<Rightarrow> nat \<Rightarrow> uint32_t" where
  "word_at k ebp n = load32 k (ebp + 4 * of_nat n)"

text \<open>\<open>for (i = 0; i < 5; i++) cprintf(" %08x", *(ebp + 2 + i));\<close>\<close>

function print_args :: "kernel \<Rightarrow> uint32_t \<Rightarrow> nat \<Rightarrow> console \<Rightarrow> console" where
  "print_args k ebp i con =
     (if i < 5 then print_args k ebp (i + 1) (cprintf '' %08x'' [ArgU32 (word_at k ebp (2 + i))] con)
      else con)"
  by pat_completeness auto
termination
  by (relation "measure (\<lambda>(k, ebp, i, con). 5 - i)") auto

declare print_args.simps [simp del]

text \<open>The four \<open>cprintf\<close> calls made when \<open>debuginfo_eip\<close> returns 0.\<close>

definition print_symbol :: "uint32_t \<Rightarrow> Eipdebuginfo \<Rightarrow> console \<Rightarrow> console" where
  "print_symbol eip info con =
     (let con1 = cprintf ''%s:%d: '' [str_arg (eip_file info), ArgInt (eip_line info)] con;
          con2 = cprintf ''%.*s'' [ArgInt (eip_fn_namelen info), str_arg (eip_fn_name info)] con1;
          con3 = cprintf ''+%d'' [ArgU32 (eip - eip_fn_addr info)] con2
      in cprintf ''\<newline>'' [] con3)"

text \<open>
  The \<open>while (ebp)\<close> loop. Besides the console it keeps \<open>calls\<close>, the record of the
  calls to \<open>debuginfo_eip\<close>: the address and the record \<open>info\<close> as each call receives
  it. A frame chain that never reaches 0 keeps the loop running, so the loop is a partial
  function and \<open>None\<close> stands for not returning.
\<close>

type_synonym lookups = "(uint32_t \<times> Eipdebuginfo) list"

partial_function (option) backtrace_loop ::
  "kernel \<Rightarrow> uint32_t \<Rightarrow> Eipdebuginfo \<Rightarrow> console \<Rightarrow> lookups \<Rightarrow> (console \<times> lookups) option" where
  "backtrace_loop k ebp info con calls =
     (if ebp \<noteq> 0 then
        (let eip = word_at k ebp 1;
             con1 = cprintf ''ebp %08x eip %08x args'' [ArgU32 ebp, ArgU32 eip] con;
             con2 = print_args k ebp 0 con1;
             con3 = cprintf ''\<newline>'' [] con2;
             (r, info') = debuginfo_eip k eip info;
             con4 = (if r = 0 then print_symbol eip info' con3 else con3)
         in backtrace_loop k (word_at k ebp 0) info' con4 (calls @ [(eip, info)]))
      else Some (con, calls))"

declare backtrace_loop.simps [code]

definition backtrace_run :: "kernel \<Rightarrow> console \<Rightarrow> (console \<times> lookups) option" where
  "backtrace_run k con = backtrace_loop k (read_ebp k) zero_info con []"

definition mon_backtrace :: handler where
  "mon_backtrace k argv con =
     (case backtrace_run k con of
        None \<Rightarrow> None
      | Some (con', calls) \<Rightarrow> Some (0, con'))"

subsection \<open>\<open>mon_showmappings\<close>\<close>

text \<open>\<open>const uint32_t PERM[10] = { PTE_P, PTE_U, PTE_W };\<close> (the rest is zero).\<close>

definition PERM :: "kernel \<Rightarrow> uint32_t list" where
  "PERM k = [PTE_P k, PTE_U k, PTE_W k, 0, 0, 0, 0, 0, 0, 0]"

text \<open>
  \<open>for (i = 0; i < perm_len; i += 2) if (!(PERM[i / 2] & pte)) perm[i] = 'X';\<close>
  The array \<open>perm\<close> is the string before its terminator; every index written is below
  its length.
\<close>

function perm_loop :: "kernel \<Rightarrow> uint32_t \<Rightarrow> nat \<Rightarrow> nat \<Rightarrow> string \<Rightarrow> string" where
  "perm_loop k pte perm_len i perm =
     (if i < perm_len then
        perm_loop k pte perm_len (i + 2)
          (if PERM k ! (i div 2) AND pte = 0 then perm[i := CHR ''X''] else perm)
      else perm)"
  by pat_completeness auto
termination
  by (relation "measure (\<lambda>(k, pte, perm_len, i, perm). perm_len - i)") auto

declare perm_loop.simps [simp del]

text \<open>
  The loop \<open>for (; begin < end; begin += PGSIZE)\<close>. The array \<open>perm\<close> is declared
  outside the loop and goes from one round to the next as the last round left it.
\<close>

partial_function (option) showmappings_loop ::
  "kernel \<Rightarrow> uint32_t \<Rightarrow> uint32_t \<Rightarrow> nat \<Rightarrow> string \<Rightarrow> console \<Rightarrow> console option" where
  "showmappings_loop k begin end perm_len perm con =
     (if begin < end then
        (case page_lookup k begin of
           Some (pa, pte) \<Rightarrow>
             (let perm' = perm_loop k pte perm_len 0 perm
              in showmappings_loop k (begin + PGSIZE) end perm_len perm'
                   (cprintf (''%08x'' @ TAB @ ''%08x'' @ TAB @ ''%s\<newline>'')
                      [ArgU32 begin, ArgU32 pa, ArgStr perm'] con))
         | None \<Rightarrow>
             showmappings_loop k (begin + PGSIZE) end perm_len perm
               (cprintf (''%08x'' @ TAB @ ''%s'' @ TAB @ ''%s\<newline>'')
                  [ArgU32 begin, ArgStr ''NULL'', ArgStr ''NULL''] con))
      else Some con)"

declare showmappings_loop.simps [code]

definition showmappings_table ::
  "kernel \<Rightarrow> uint32_t \<Rightarrow> uint32_t \<Rightarrow> console \<Rightarrow> (int \<times> console) option" where
  "showmappings_table k begin end con =
     (case showmappings_loop k begin end (length ''P/U/W'') ''P/U/W''
             (cprintf (''Virtual'' @ TAB @ ''Physical'' @ TAB @ ''Permission\<newline>'') [] con) of
        None \<Rightarrow> None
      | Some con' \<Rightarrow> Some (0, con'))"

definition mon_showmappings :: handler where
  "mon_showmappings k argv con =
     (let argc = length argv in
      if argc = 1 \<or> argc > 3 then
        Some (0, cprintf ''Usage: showmappings BEGIN [END]\<newline>'' [] con)
      else if argc > 1 then
        (let (v1, endptr1) = strtol k (argv ! 1) 16;
             begin = ROUNDDOWN (word_of_int v1) PGSIZE
         in if deref endptr1 \<noteq> NUL then Some (0, cprintf ''Wrong address!'' [] con)
            else if argc = 2 then showmappings_table k begin (begin + PGSIZE) con
            else
              (let (v2, endptr2) = strtol k (argv ! 2) 16;
                   end = ROUNDUP (word_of_int v2) PGSIZE
               in if deref endptr2 \<noteq> NUL then Some (0, cprintf ''Wrong address!'' [] con)
                  else showmappings_table k begin end con))
      else Some (0, con))"

subsection \<open>The command table and the monitor loop\<close>

definition commands :: "Command list" where
  "commands =
     [\<lparr>name = ''help'', desc = ''Display this list of commands'', func = mon_help\<rparr>,
      \<lparr>name = ''kerninfo'', desc = ''Display information about the kernel'', func = mon_kerninfo\<rparr>,
      \<lparr>name = ''backtrace'', desc = ''Display backtrace'', func = mon_backtrace\<rparr>,
      \<lparr>name = ''showmappings'',
       desc = ''Display mappings between physical address and virtual address'',
       func = mon_showmappings\<rparr>]"

text \<open>
  \<open>readline\<close> hands the loop one line after the other, or \<open>NULL\<close>. The loop is run on
  the lines that arrive: it has \<open>Returned\<close> when a command's result was negative (with
  the lines not read), it is \<open>Reading\<close> when it waits in \<open>readline\<close> for a line after
  the last one, and it is \<open>Hung\<close> when a handler never came back.
\<close>

datatype outcome =
    Returned console "string option list"
  | Reading console
  | Hung

fun monitor_loop :: "Command list \<Rightarrow> kernel \<Rightarrow> string option list \<Rightarrow> console \<Rightarrow> outcome" where
  "monitor_loop cmds k [] con = Reading con"
| "monitor_loop cmds k (None # rest) con = monitor_loop cmds k rest con"
| "monitor_loop cmds k (Some buf # rest) con =
     (case runcmd cmds k buf con of
        None \<Rightarrow> Hung
      | Some (r, con') \<Rightarrow> if r < 0 then Returned con' rest else monitor_loop cmds k rest con')"

definition monitor :: "Command list \<Rightarrow> kernel \<Rightarrow> string option list \<Rightarrow> outcome" where
  "monitor cmds k lines =
     monitor_loop cmds k lines
       (cprintf ''Type 'help' for a list of commands.\<newline>'' []
          (cprintf ''Welcome to the JOS kernel monitor!\<newline>'' [] []))"

subsection \<open>The spec's view of a line, and the parser used in the examples\<close>

text \<open>
  The tokenizer as the spec words it: a line is cut at every whitespace character into
  \<open>fields\<close>, and the tokens are the fields that are not empty, so that a run of
  separators counts as one. \<open>join\<close> writes tokens with one space between neighbours.
\<close>

fun fields :: "string \<Rightarrow> string list" where
  "fields [] = [[]]"
| "fields (c # cs) =
     (if c \<in> set WHITESPACE then [] # fields cs
      else (case fields cs of [] \<Rightarrow> [[c]] | f # fs \<Rightarrow> (c # f) # fs))"

definition split_ws :: "string \<Rightarrow> string list" where
  "split_ws s = filter (\<lambda>t. t \<noteq> []) (fields s)"

fun join :: "string list \<Rightarrow> string" where
  "join [] = []"
| "join [t] = t"
| "join (t # u # us) = t @ CHR '' '' # join (u # us)"

text \<open>
  Modelled from the spec: \<open>strtol\<close> of lib/string.c, which is not among the sources.
  The spec has an address string parse as a base-16 integer, with whatever follows the
  digits left over. The handlers take the parser as the parameter \<open>strtol\<close> of the
  kernel; this one serves where a statement is run on a concrete line.
\<close>

definition hexval :: "char \<Rightarrow> nat option" where
  "hexval c =
     (let n = (of_char c :: nat) in
      if 48 \<le> n \<and> n \<le> 57 then Some (n - 48)
      else if 97 \<le> n \<and> n \<le> 102 then Some (n - 87)
      else if 65 \<le> n \<and> n \<le> 70 then Some (n - 55)
      else None)"

fun strtol_digits :: "int \<Rightarrow> string \<Rightarrow> int \<times> string" where
  "strtol_digits val [] = (val, [])"
| "strtol_digits val (c # cs) =
     (case hexval c of
        Some d \<Rightarrow> strtol_digits (val * 16 + int d) cs
      | None \<Rightarrow> (val, c # cs))"

definition strtol_hex :: "string \<Rightarrow> nat \<Rightarrow> int \<times> string" where
  "strtol_hex s base = strtol_digits 0 s"

text \<open>
  A kernel to run the monitor on: an empty stack, no page mapped, a resolver that knows
  no symbol, the flag values of the x86 page-table entry.
\<close>

definition boot_kernel :: kernel where
  "boot_kernel =
     \<lparr>read_ebp = 0, load32 = (\<lambda>a. 0), debuginfo_eip = (\<lambda>eip info. (- 1, info)),
      strtol = strtol_hex, page_lookup = (\<lambda>va. None),
      PTE_P = 1, PTE_U = 4, PTE_W = 2, KERNBASE = 0xF0000000,
      sym_start = 0x0010000C, sym_entry = 0xF010000C, sym_etext = 0xF0101A00,
      sym_edata = 0xF0112300, sym_end = 0xF0112960\<rparr>"

subsection \<open>The spec's view of the two tables, and kernels for the examples\<close>

text \<open>
  The number of page-sized steps from \<open>begin\<close> up to \<open>end\<close>, the header line of the
  mapping table, and the table's rows for \<open>n\<close> pages from \<open>va\<close> on, by recursion on
  \<open>n\<close>.
\<close>

definition page_count :: "uint32_t \<Rightarrow> uint32_t \<Rightarrow> nat" where
  "page_count begin end = (if begin < end then (unat end - unat begin) div 4096 else 0)"

definition table_header :: cprintf_call where
  "table_header = Cprintf (''Virtual'' @ TAB @ ''Physical'' @ TAB @ ''Permission\<newline>'') []"

fun table_rows :: "kernel \<Rightarrow> uint32_t \<Rightarrow> nat \<Rightarrow> nat \<Rightarrow> string \<Rightarrow> console" where
  "table_rows k va 0 perm_len perm = []"
| "table_rows k va (Suc n) perm_len perm =
     (case page_lookup k va of
        Some (pa, pte) \<Rightarrow>
          Cprintf (''%08x'' @ TAB @ ''%08x'' @ TAB @ ''%s\<newline>'')
            [ArgU32 va, ArgU32 pa, ArgStr (perm_loop k pte perm_len 0 perm)]
          # table_rows k (va + PGSIZE) n perm_len (perm_loop k pte perm_len 0 perm)
      | None \<Rightarrow>
          Cprintf (''%08x'' @ TAB @ ''%s'' @ TAB @ ''%s\<newline>'')
            [ArgU32 va, ArgStr ''NULL'', ArgStr ''NULL'']
          # table_rows k (va + PGSIZE) n perm_len perm)"

text \<open>
  The permission string as the spec words it: the template \<open>P/U/W\<close> with the letter of
  every flag that the entry lacks replaced by \<open>X\<close>.
\<close>

definition perm_string :: "kernel \<Rightarrow> uint32_t \<Rightarrow> string" where
  "perm_string k pte =
     [if PTE_P k AND pte \<noteq> 0 then CHR ''P'' else CHR ''X'', CHR ''/'',
      if PTE_U k AND pte \<noteq> 0 then CHR ''U'' else CHR ''X'', CHR ''/'',
      if PTE_W k AND pte \<noteq> 0 then CHR ''W'' else CHR ''X'']"

text \<open>
  A frame chain: the frame pointers met from \<open>ebp\<close> on, each one the word stored at
  the one before, up to the null pointer. The line of a frame shows the frame pointer,
  the return address one word above it and the five words above that; the symbol line
  is what a successful lookup adds.
\<close>

fun frame_chain :: "kernel \<Rightarrow> uint32_t \<Rightarrow> uint32_t list \<Rightarrow> bool" where
  "frame_chain k ebp [] \<longleftrightarrow> ebp = 0"
| "frame_chain k ebp (f # fs) \<longleftrightarrow> ebp \<noteq> 0 \<and> f = ebp \<and> frame_chain k (load32 k ebp) fs"

definition frame_line :: "kernel \<Rightarrow> uint32_t \<Rightarrow> console" where
  "frame_line k f =
     [Cprintf ''ebp %08x eip %08x args'' [ArgU32 f, ArgU32 (load32 k (f + 4))],
      Cprintf '' %08x'' [ArgU32 (load32 k (f + 8))],
      Cprintf '' %08x'' [ArgU32 (load32 k (f + 12))],
      Cprintf '' %08x'' [ArgU32 (load32 k (f + 16))],
      Cprintf '' %08x'' [ArgU32 (load32 k (f + 20))],
      Cprintf '' %08x'' [ArgU32 (load32 k (f + 24))],
      Cprintf ''\<newline>'' []]"

definition symbol_line :: "uint32_t \<Rightarrow> Eipdebuginfo \<Rightarrow> console" where
  "symbol_line eip info =
     [Cprintf ''%s:%d: '' [str_arg (eip_file info), ArgInt (eip_line info)],
      Cprintf ''%.*s'' [ArgInt (eip_fn_namelen info), str_arg (eip_fn_name info)],
      Cprintf ''+%d'' [ArgU32 (eip - eip_fn_addr info)],
      Cprintf ''\<newline>'' []]"

text \<open>
  For the frames of a chain, with the record \<open>info\<close> going into the first lookup: what
  follows each frame's line, and the lookups made.
\<close>

fun frame_notes :: "kernel \<Rightarrow> Eipdebuginfo \<Rightarrow> uint32_t list \<Rightarrow> console list" where
  "frame_notes k info [] = []"
| "frame_notes k info (f # fs) =
     (let eip = load32 k (f + 4); (r, info') = debuginfo_eip k eip info
      in (if r = 0 then symbol_line eip info' else []) # frame_notes k info' fs)"

fun frame_lookups :: "kernel \<Rightarrow> Eipdebuginfo \<Rightarrow> uint32_t list \<Rightarrow> lookups" where
  "frame_lookups k info [] = []"
| "frame_lookups k info (f # fs) =
     (let eip = load32 k (f + 4)
      in (eip, info) # frame_lookups k (snd (debuginfo_eip k eip info)) fs)"

text \<open>
  A kernel with two pages mapped: the page at 0 for the kernel only (present, writable),
  the page at 0x1000 for the user too (present, writable, user).
\<close>

definition two_page_kernel :: kernel where
  "two_page_kernel =
     boot_kernel\<lparr>page_lookup :=
       (\<lambda>va. if va = 0 then Some (0x00100000, 0x003)
             else if va = 0x1000 then Some (0x00101000, 0x007)
             else None)\<rparr>"

text \<open>
  A kernel with three frames on the stack and a resolver that knows the two inner return
  addresses; and one whose frame pointer points at itself.
\<close>

definition init_info :: Eipdebuginfo where
  "init_info =
     \<lparr>eip_file = Some ''kern/init.c'', eip_line = 24,
      eip_fn_name = Some ''test_backtrace:F(0,1)'', eip_fn_namelen = 14,
      eip_fn_addr = 0xF0100040, eip_fn_narg = 1\<rparr>"

definition stack_kernel :: kernel where
  "stack_kernel =
     boot_kernel
       \<lparr>read_ebp := 0xF010FF58,
        load32 := (\<lambda>a. case map_of
            [(0xF010FF58, 0xF010FF78), (0xF010FF5C, 0xF0100068), (0xF010FF60, 1),
             (0xF010FF78, 0xF010FFD8), (0xF010FF7C, 0xF01000A4), (0xF010FF80, 2),
             (0xF010FFD8, 0), (0xF010FFDC, 0xF010003E)] a of
          Some v \<Rightarrow> v | None \<Rightarrow> 0),
        debuginfo_eip := (\<lambda>eip info. if eip = 0xF010003E then (- 1, info) else (0, init_info))\<rparr>"

definition loop_kernel :: kernel where
  "loop_kernel = boot_kernel\<lparr>read_ebp := 0xF010FF58, load32 := (\<lambda>a. 0xF010FF58)\<rparr>"

section \<open>The tokenizer against the spec's splitting\<close>

lemma fields_ne: "fields s \<noteq> []"
  by (cases s) (auto split: list.splits)

lemma fields_Cons:
  "fields (c # cs) =
     (if c \<in> set WHITESPACE then [] # fields cs else (c # hd (fields cs)) # tl (fields cs))"
  using fields_ne [of cs] by (cases "fields cs") auto

lemmas fields_eval = fields.simps(2)

declare fields.simps(2) [simp del]

lemma cstring_Cons: "cstring (c # cs) = (if c = NUL then [] else c # cstring cs)"
  by (simp add: cstring_def)

lemma cstring_Nil: "cstring [] = []"
  by (simp add: cstring_def)

lemma split_ws_gobble: "split_ws (cstring (gobble buf)) = split_ws (cstring buf)"
  by (induction buf) (auto simp: cstring_Cons is_space_def split_ws_def fields_Cons)

lemma hd_fields_scan: "hd (fields (cstring (scan buf))) = []"
  by (induction buf) (auto simp: cstring_Cons cstring_Nil is_arg_char_def fields_Cons)

lemma fields_arg:
  "fields (cstring buf) =
     (arg_at buf @ hd (fields (cstring (scan buf)))) # tl (fields (cstring (scan buf)))"
  by (induction buf) (auto simp: cstring_Cons cstring_Nil is_arg_char_def fields_ne fields_Cons)

lemma split_ws_arg:
  assumes "is_arg_char c"
  shows "split_ws (cstring (c # cs)) = arg_at (c # cs) # split_ws (cstring (scan (c # cs)))"
proof -
  let ?r = "fields (cstring (scan (c # cs)))"
  have "fields (cstring (c # cs)) = arg_at (c # cs) # tl ?r"
    using fields_arg [of "c # cs"] hd_fields_scan [of "c # cs"] by simp
  moreover have "?r = [] # tl ?r"
    using hd_fields_scan [of "c # cs"] fields_ne [of "cstring (scan (c # cs))"]
    by (cases ?r) auto
  moreover have "arg_at (c # cs) \<noteq> []" using assms by simp
  ultimately show ?thesis
    unfolding split_ws_def by (metis (mono_tags, lifting) filter.simps(2))
qed

lemma split_ws_end:
  assumes "deref (gobble buf) = NUL"
  shows "split_ws (cstring buf) = []"
proof -
  have "cstring (gobble buf) = []"
    using assms by (cases "gobble buf") (auto simp: deref_def cstring_Cons cstring_Nil)
  then have "split_ws (cstring (gobble buf)) = []" by (simp add: split_ws_def)
  then show ?thesis by (simp add: split_ws_gobble)
qed

lemma arg_char_after_gobble:
  assumes "deref (gobble buf) \<noteq> NUL"
  obtains c cs where "gobble buf = c # cs" and "is_arg_char c"
proof (cases "gobble buf")
  case Nil
  with assms show ?thesis by (simp add: deref_def)
next
  case (Cons c cs)
  with assms have "c \<noteq> NUL" by (simp add: deref_def)
  moreover from Cons have "\<not> is_space c" by (rule gobble_head)
  ultimately have "is_arg_char c" by (simp add: is_space_def is_arg_char_def)
  with Cons that show ?thesis by blast
qed

lemma split_ws_step:
  assumes "deref (gobble buf) \<noteq> NUL"
  shows "split_ws (cstring buf) = arg_at (gobble buf) # split_ws (cstring (scan (gobble buf)))"
proof -
  from assms obtain c cs where g: "gobble buf = c # cs" and c: "is_arg_char c"
    by (rule arg_char_after_gobble)
  from c have "split_ws (cstring (c # cs)) = arg_at (c # cs) # split_ws (cstring (scan (c # cs)))"
    by (rule split_ws_arg)
  with g show ?thesis using split_ws_gobble [of buf] by simp
qed

text \<open>
  The parse loop returns the tokens of the line after the arguments it already holds,
  as long as they fit in the fifteen places before the closing null pointer.
\<close>

lemma tokenize_split:
  "length argv \<le> MAXARGS - 1 \<Longrightarrow>
   tokenize argv buf =
     (if length argv + length (split_ws (cstring buf)) \<le> MAXARGS - 1
      then Some (argv @ split_ws (cstring buf)) else None)"
proof (induction argv buf rule: tokenize.induct)
  case (1 argv buf)
  show ?case
  proof (cases "deref (gobble buf) = NUL")
    case True
    then show ?thesis using "1.prems"
      by (subst tokenize.simps) (simp add: split_ws_end)
  next
    case False
    note step = split_ws_step [OF False]
    show ?thesis
    proof (cases "length argv = MAXARGS - 1")
      case True
      then show ?thesis using False step
        by (subst tokenize.simps) simp
    next
      case room: False
      with "1.prems" have "length (argv @ [arg_at (gobble buf)]) \<le> MAXARGS - 1" by simp
      from "1.IH" [OF refl False room this] show ?thesis
        using False room step by (subst tokenize.simps) (simp add: Let_def)
    qed
  qed
qed

lemma tokenize_line:
  "tokenize [] buf =
     (if length (split_ws (cstring buf)) \<le> 15 then Some (split_ws (cstring buf)) else None)"
  using tokenize_split [of "[]" buf] by (simp add: MAXARGS_def)

lemmas string_eval = tokenize_line split_ws_def cstring_def WHITESPACE_def NUL_def fields_eval

lemma fields_no_ws: "f \<in> set (fields s) \<Longrightarrow> c \<in> set f \<Longrightarrow> c \<notin> set WHITESPACE"
proof (induction s arbitrary: f)
  case Nil
  then show ?case by simp
next
  case (Cons a s)
  have ne: "fields s \<noteq> []" by (rule fields_ne)
  show ?case
  proof (cases "a \<in> set WHITESPACE")
    case True
    with Cons.prems have "f = [] \<or> f \<in> set (fields s)" by (auto simp: fields_Cons)
    with Cons show ?thesis by auto
  next
    case False
    with Cons.prems have "f = a # hd (fields s) \<or> f \<in> set (tl (fields s))"
      by (auto simp: fields_Cons)
    moreover have "hd (fields s) \<in> set (fields s)" using ne by simp
    moreover have "set (tl (fields s)) \<subseteq> set (fields s)" using ne by (cases "fields s") auto
    ultimately show ?thesis using Cons False by auto
  qed
qed

lemma fields_subset: "f \<in> set (fields s) \<Longrightarrow> set f \<subseteq> set s"
proof (induction s arbitrary: f)
  case Nil
  then show ?case by simp
next
  case (Cons a s)
  have ne: "fields s \<noteq> []" by (rule fields_ne)
  have h: "hd (fields s) \<in> set (fields s)" using ne by simp
  have t: "set (tl (fields s)) \<subseteq> set (fields s)" using ne by (cases "fields s") auto
  show ?case
  proof (cases "a \<in> set WHITESPACE")
    case True
    with Cons.prems have "f = [] \<or> f \<in> set (fields s)" by (auto simp: fields_Cons)
    with Cons.IH show ?thesis by auto
  next
    case False
    with Cons.prems have "f = a # hd (fields s) \<or> f \<in> set (tl (fields s))"
      by (auto simp: fields_Cons)
    moreover have "set (hd (fields s)) \<subseteq> set s" using Cons.IH [OF h] .
    moreover have "\<And>g. g \<in> set (tl (fields s)) \<Longrightarrow> set g \<subseteq> set s"
      using Cons.IH t by blast
    ultimately show ?thesis by auto
  qed
qed

lemma NUL_notin_cstring: "NUL \<notin> set (cstring s)"
  by (induction s) (auto simp: cstring_Cons cstring_Nil)

lemma split_ws_tokens:
  assumes "t \<in> set (split_ws (cstring s))"
  shows "t \<noteq> [] \<and> (\<forall>c \<in> set t. is_arg_char c)"
proof -
  from assms have f: "t \<in> set (fields (cstring s))" and ne: "t \<noteq> []"
    by (auto simp: split_ws_def)
  have "\<forall>c \<in> set t. c \<notin> set WHITESPACE" using fields_no_ws [OF f] by blast
  moreover have "\<forall>c \<in> set t. c \<noteq> NUL"
    using fields_subset [OF f] NUL_notin_cstring [of s] by auto
  ultimately show ?thesis using ne by (simp add: is_arg_char_def)
qed

lemma cstring_id: "\<forall>c \<in> set s. c \<noteq> NUL \<Longrightarrow> cstring s = s"
  by (induction s) (auto simp: cstring_Cons cstring_Nil)

lemma fields_word:
  "\<forall>c \<in> set t. c \<notin> set WHITESPACE \<Longrightarrow> fields (t @ r) = (t @ hd (fields r)) # tl (fields r)"
  by (induction t) (auto simp: fields_ne fields_Cons)

lemma split_ws_word:
  assumes "\<forall>c \<in> set t. c \<notin> set WHITESPACE" "t \<noteq> []"
  shows "split_ws t = [t]"
  using fields_word [OF assms(1), of "[]"] assms(2) by (simp add: split_ws_def)

lemma split_ws_word_sep:
  assumes "\<forall>c \<in> set t. c \<notin> set WHITESPACE" "t \<noteq> []"
  shows "split_ws (t @ CHR '' '' # r) = t # split_ws r"
proof -
  have "fields (CHR '' '' # r) = [] # fields r" by (simp add: WHITESPACE_def fields_Cons)
  then have "fields (t @ CHR '' '' # r) = t # fields r"
    using fields_word [OF assms(1), of "CHR '' '' # r"] by simp
  then show ?thesis using assms(2) by (simp add: split_ws_def)
qed

lemma split_ws_join:
  "\<forall>t \<in> set ts. t \<noteq> [] \<and> (\<forall>c \<in> set t. is_arg_char c) \<Longrightarrow> split_ws (join ts) = ts"
proof (induction ts rule: join.induct)
  case 1
  then show ?case by (simp add: split_ws_def)
next
  case (2 t)
  then show ?case by (simp add: split_ws_word is_arg_char_def)
next
  case (3 t u us)
  then have "\<forall>c \<in> set t. c \<notin> set WHITESPACE" "t \<noteq> []" by (auto simp: is_arg_char_def)
  then have "split_ws (t @ CHR '' '' # join (u # us)) = t # split_ws (join (u # us))"
    by (rule split_ws_word_sep)
  with 3 show ?case by simp
qed

lemma join_no_NUL:
  "\<forall>t \<in> set ts. \<forall>c \<in> set t. is_arg_char c \<Longrightarrow> c \<in> set (join ts) \<Longrightarrow> c \<noteq> NUL"
  by (induction ts rule: join.induct) (auto simp: is_arg_char_def NUL_def)

text \<open>
  C6. On every line the tokenizer returns the tokens that splitting at whitespace gives
  (tab, carriage return, newline, space; runs at the start, at the end and inside count
  as one separator), as long as there are at most fifteen. No token of the argument
  vector is empty or holds a separator. The line of two spaces, a, three spaces, b, a
  tab, c and a newline gives a, b, c. Tokenizing again the tokens written with single
  spaces between them gives the same argument vector.
\<close>

theorem tokenize_collapses_whitespace:
  "tokenize [] line =
     (if length (split_ws (cstring line)) \<le> 15 then Some (split_ws (cstring line)) else None)
   \<and> (\<forall>argv. tokenize [] line = Some argv \<longrightarrow>
         (\<forall>t \<in> set argv. t \<noteq> [] \<and> (\<forall>c \<in> set t. c \<notin> set WHITESPACE)))
   \<and> tokenize [] (''  a   b'' @ TAB @ ''c\<newline>'') = Some [''a'', ''b'', ''c'']
   \<and> (\<forall>argv. tokenize [] line = Some argv \<longrightarrow> tokenize [] (join argv) = Some argv)"
proof (intro conjI allI impI)
  show "tokenize [] line =
     (if length (split_ws (cstring line)) \<le> 15 then Some (split_ws (cstring line)) else None)"
    by (rule tokenize_line)
next
  fix argv assume "tokenize [] line = Some argv"
  then have argv: "argv = split_ws (cstring line)"
    by (simp add: tokenize_line split: if_splits)
  show "\<forall>t \<in> set argv. t \<noteq> [] \<and> (\<forall>c \<in> set t. c \<notin> set WHITESPACE)"
    using split_ws_tokens [of _ line] unfolding argv is_arg_char_def by blast
next
  show "tokenize [] (''  a   b'' @ TAB @ ''c\<newline>'') = Some [''a'', ''b'', ''c'']"
    by (simp add: string_eval TAB_def)
next
  fix argv assume tok: "tokenize [] line = Some argv"
  then have argv: "argv = split_ws (cstring line)" and len: "length argv \<le> 15"
    by (simp_all add: tokenize_line split: if_splits)
  have good: "\<forall>t \<in> set argv. t \<noteq> [] \<and> (\<forall>c \<in> set t. is_arg_char c)"
    using split_ws_tokens [of _ line] unfolding argv by blast
  then have "\<forall>c \<in> set (join argv). c \<noteq> NUL" using join_no_NUL [of argv] by blast
  then have "cstring (join argv) = join argv" by (rule cstring_id)
  moreover have "split_ws (join argv) = argv" using good by (rule split_ws_join)
  ultimately show "tokenize [] (join argv) = Some argv"
    using len by (simp add: tokenize_line)
qed

theorem tokenize_collapses_whitespace_witness:
  "tokenize [] ''showmappings   1000  3000 '' = Some [''showmappings'', ''1000'', ''3000'']
   \<and> tokenize [] (join [''showmappings'', ''1000'', ''3000'']) =
       Some [''showmappings'', ''1000'', ''3000'']
   \<and> join [''showmappings'', ''1000'', ''3000''] = ''showmappings 1000 3000''"
proof -
  have t: "tokenize [] ''showmappings   1000  3000 '' = Some [''showmappings'', ''1000'', ''3000'']"
    by (simp add: string_eval)
  from tokenize_collapses_whitespace [of "''showmappings   1000  3000 ''"] t
  show ?thesis by simp
qed

section \<open>Dispatch and the monitor loop\<close>

lemma lookup_find:
  "lookup cmds k argv con =
     (case find (\<lambda>c. name c = argv ! 0) cmds of
        Some c \<Rightarrow> func c k argv con
      | None \<Rightarrow> Some (0, cprintf ''Unknown command '%s'\<newline>'' [ArgStr (argv ! 0)] con))"
  by (induction cmds) auto

lemma find_None_name: "a \<notin> name ` set cmds \<Longrightarrow> find (\<lambda>c. name c = a) cmds = None"
  by (induction cmds) auto

text \<open>The two columns that \<open>mon_help\<close> prints are those of the command table.\<close>

lemma commands_info: "map (\<lambda>c. (name c, desc c)) commands = command_info"
  by (simp add: commands_def command_info_def)

text \<open>
  C7. A line of more than fifteen tokens makes \<open>runcmd\<close> print the too-many-arguments
  message and return 0, whatever the command table holds, so no handler runs. A line of
  at most fifteen tokens prints no such message: \<open>runcmd\<close> returns 0 on a blank line
  and otherwise what the lookup of the tokens returns.
\<close>

theorem runcmd_too_many_arguments:
  "(length (split_ws (cstring line)) > 15 \<longrightarrow>
      runcmd cmds k line con =
        Some (0, con @ [Cprintf ''Too many arguments (max %d)\<newline>'' [ArgInt 16]]))
   \<and> (length (split_ws (cstring line)) \<le> 15 \<longrightarrow>
      runcmd cmds k line con =
        (if split_ws (cstring line) = [] then Some (0, con)
         else lookup cmds k (split_ws (cstring line)) con))"
  by (simp add: runcmd_def tokenize_line cprintf_def MAXARGS_def)

theorem runcmd_too_many_arguments_witness:
  "runcmd commands boot_kernel ''help 1 2 3 4 5 6 7 8 9 10 11 12 13 14 15'' [] =
     Some (0, [Cprintf ''Too many arguments (max %d)\<newline>'' [ArgInt 16]])
   \<and> runcmd commands boot_kernel ''help 1 2 3 4 5 6 7 8 9 10 11 12 13 14'' [] =
     lookup commands boot_kernel
       [''help'', ''1'', ''2'', ''3'', ''4'', ''5'', ''6'', ''7'', ''8'', ''9'', ''10'',
        ''11'', ''12'', ''13'', ''14''] []"
proof -
  have a: "split_ws (cstring ''help 1 2 3 4 5 6 7 8 9 10 11 12 13 14 15'') =
    [''help'', ''1'', ''2'', ''3'', ''4'', ''5'', ''6'', ''7'', ''8'', ''9'', ''10'',
        ''11'', ''12'', ''13'', ''14'', ''15'']"
    by (simp add: string_eval)
  have b: "split_ws (cstring ''help 1 2 3 4 5 6 7 8 9 10 11 12 13 14'') =
    [''help'', ''1'', ''2'', ''3'', ''4'', ''5'', ''6'', ''7'', ''8'', ''9'', ''10'',
        ''11'', ''12'', ''13'', ''14'']"
    by (simp add: string_eval)
  from runcmd_too_many_arguments
         [of "''help 1 2 3 4 5 6 7 8 9 10 11 12 13 14 15''" commands boot_kernel "[]"]
       runcmd_too_many_arguments
         [of "''help 1 2 3 4 5 6 7 8 9 10 11 12 13 14''" commands boot_kernel "[]"]
  show ?thesis unfolding a b by simp
qed

text \<open>
  C9, as the claim states it, fails on a line of sixteen tokens whose first token is no
  command: the parse loop returns through the too-many-arguments message before any
  name is looked up, and the unknown-command message is not printed.
\<close>

theorem unknown_command_behind_too_many_arguments:
  "tokenize [] ''frobnicate 1 2 3 4 5 6 7 8 9 10 11 12 13 14 15'' = None
   \<and> runcmd commands boot_kernel ''frobnicate 1 2 3 4 5 6 7 8 9 10 11 12 13 14 15'' [] =
     Some (0, [Cprintf ''Too many arguments (max %d)\<newline>'' [ArgInt 16]])"
  by (simp add: runcmd_def string_eval cprintf_def MAXARGS_def)

text \<open>
  C9, amended. For every line that the tokenizer accepts (one to fifteen tokens) and
  whose first token is the name of no entry of the command table, \<open>runcmd\<close> prints the
  unknown-command message with that token and returns 0, and the monitor loop goes on
  to the next line.
\<close>

theorem runcmd_unknown_command:
  assumes "tokenize [] line = Some (a # args)" and "a \<notin> name ` set cmds"
  shows "runcmd cmds k line con =
           Some (0, con @ [Cprintf ''Unknown command '%s'\<newline>'' [ArgStr a]])
         \<and> monitor_loop cmds k (Some line # rest) con =
           monitor_loop cmds k rest (con @ [Cprintf ''Unknown command '%s'\<newline>'' [ArgStr a]])"
proof -
  have "find (\<lambda>c. name c = a) cmds = None" using assms(2) by (rule find_None_name)
  then have "lookup cmds k (a # args) con =
      Some (0, con @ [Cprintf ''Unknown command '%s'\<newline>'' [ArgStr a]])"
    by (simp add: lookup_find cprintf_def)
  with assms(1) have r: "runcmd cmds k line con =
      Some (0, con @ [Cprintf ''Unknown command '%s'\<newline>'' [ArgStr a]])"
    by (simp add: runcmd_def)
  then show ?thesis by simp
qed

theorem runcmd_unknown_command_witness:
  "runcmd commands boot_kernel ''frobnicate now'' [] =
     Some (0, [Cprintf ''Unknown command '%s'\<newline>'' [ArgStr ''frobnicate'']])
   \<and> monitor_loop commands boot_kernel [Some ''frobnicate now''] [] =
     Reading [Cprintf ''Unknown command '%s'\<newline>'' [ArgStr ''frobnicate'']]"
proof -
  have t: "tokenize [] ''frobnicate now'' = Some [''frobnicate'', ''now'']"
    by (simp add: string_eval)
  have n: "''frobnicate'' \<notin> name ` set commands"
    by (simp add: commands_def)
  from runcmd_unknown_command [OF t n, of boot_kernel "[]" "[]"] show ?thesis by simp
qed


section \<open>The mapping inspector\<close>

lemma unat_PGSIZE: "unat PGSIZE = 4096"
  by (simp add: PGSIZE_def)

lemma unat_next_page:
  assumes "unat b + 4096 \<le> unat (e :: uint32_t)"
  shows "unat (b + PGSIZE) = unat b + 4096"
proof -
  have "unat e < 2 ^ 32" using unsigned_less [of e] by simp
  with assms have "unat b + 4096 < 4294967296" by simp
  then show ?thesis by (simp add: unat_word_ariths unat_PGSIZE)
qed

text \<open>
  When \<open>end\<close> lies \<open>n\<close> whole pages above \<open>begin\<close> the loop returns, having printed
  the \<open>n\<close> rows.
\<close>

lemma showmappings_loop_rows:
  "unat b + n * 4096 = unat e \<Longrightarrow>
   showmappings_loop k b e pl perm con = Some (con @ table_rows k b n pl perm)"
proof (induction n arbitrary: b perm con)
  case 0
  then have "b = e" by (simp add: word_unat_eq_iff)
  then show ?case by (subst showmappings_loop.simps) simp
next
  case (Suc n)
  then have lt: "b < e" by (simp add: word_less_nat_alt)
  from Suc.prems have "unat b + 4096 \<le> unat e" by simp
  then have nx: "unat (b + PGSIZE) = unat b + 4096" by (rule unat_next_page)
  with Suc.prems have step: "unat (b + PGSIZE) + n * 4096 = unat e" by simp
  show ?case
  proof (cases "page_lookup k b")
    case None
    then show ?thesis using lt Suc.IH [OF step]
      by (subst showmappings_loop.simps) (simp add: cprintf_def)
  next
    case (Some p)
    obtain pa pte where p: "p = (pa, pte)" by (cases p)
    show ?thesis using lt Some p Suc.IH [OF step]
      by (subst showmappings_loop.simps) (simp add: cprintf_def Let_def)
  qed
qed

lemma showmappings_loop_empty:
  "\<not> b < e \<Longrightarrow> showmappings_loop k b e pl perm con = Some con"
  by (subst showmappings_loop.simps) simp

lemma unat_ROUNDDOWN: "unat (ROUNDDOWN a PGSIZE) = unat a - unat a mod 4096"
proof -
  have "a mod PGSIZE \<le> a" by (simp add: word_le_nat_alt unat_mod)
  then have "unat (a - a mod PGSIZE) = unat a - unat (a mod PGSIZE)" by (rule unat_sub)
  then show ?thesis by (simp add: ROUNDDOWN_def unat_mod unat_PGSIZE)
qed

lemma aligned_ROUNDDOWN: "4096 dvd unat (ROUNDDOWN a PGSIZE)"
  unfolding unat_ROUNDDOWN by simp

lemma aligned_ROUNDUP: "4096 dvd unat (ROUNDUP a PGSIZE)"
  unfolding ROUNDUP_def by (rule aligned_ROUNDDOWN)

lemma aligned_next_page:
  assumes "4096 dvd unat (b :: uint32_t)"
  shows "4096 dvd unat (b + PGSIZE)"
proof -
  have "unat (b + PGSIZE) = (unat b + 4096) mod 4294967296"
    by (simp add: unat_word_ariths unat_PGSIZE)
  moreover have "(4096::nat) dvd unat b + 4096" using assms by simp
  moreover have "(4096::nat) dvd 4294967296" by simp
  ultimately show ?thesis by (simp add: dvd_mod)
qed

lemma page_count_span:
  assumes "4096 dvd unat b" "4096 dvd unat e"
  shows "\<not> b < e \<or> unat b + page_count b e * 4096 = unat e"
proof (cases "b < e")
  case True
  then have le: "unat b \<le> unat e" by (simp add: word_less_nat_alt)
  with assms have "4096 dvd unat e - unat b" by (simp add: dvd_diff_nat)
  then have "(unat e - unat b) div 4096 * 4096 = unat e - unat b" by simp
  with True le show ?thesis by (simp add: page_count_def)
next
  case False
  then show ?thesis by simp
qed

lemma top_page:
  assumes "4096 dvd unat (b :: uint32_t)" and "b \<noteq> 0xFFFFF000"
  shows "unat b + 4096 < 4294967296"
proof -
  from assms(1) obtain q where q: "unat b = 4096 * q" by (elim dvdE)
  have lt: "unat b < 4294967296" using unsigned_less [of b] by simp
  have "q \<noteq> 1048575"
  proof
    assume "q = 1048575"
    with q have "unat b = 4294963200" by simp
    then have "word_of_nat (unat b) = (word_of_nat 4294963200 :: uint32_t)" by (rule arg_cong)
    then have "b = 0xFFFFF000" by simp
    with assms(2) show False by simp
  qed
  moreover from lt q have "q < 1048576" by simp
  ultimately have "q + 1 \<le> 1048575" by simp
  then have "4096 * (q + 1) \<le> 4096 * 1048575" by (rule mult_le_mono2)
  with q show ?thesis by simp
qed

text \<open>On page-aligned bounds the table is the header and one row for every page counted.\<close>

lemma showmappings_table_rows:
  assumes "4096 dvd unat b" "4096 dvd unat e"
  shows "showmappings_table k b e con =
           Some (0, con @ table_header # table_rows k b (page_count b e) 5 ''P/U/W'')"
proof -
  have len: "length ''P/U/W'' = 5" by simp
  have "showmappings_loop k b e 5 ''P/U/W'' (con @ [table_header]) =
          Some ((con @ [table_header]) @ table_rows k b (page_count b e) 5 ''P/U/W'')"
  proof (cases "b < e")
    case True
    with page_count_span [OF assms] have "unat b + page_count b e * 4096 = unat e" by simp
    then show ?thesis by (rule showmappings_loop_rows)
  next
    case False
    then show ?thesis by (simp add: showmappings_loop_empty page_count_def)
  qed
  then show ?thesis
    unfolding showmappings_table_def len cprintf_def table_header_def by simp
qed

lemma length_table_rows: "length (table_rows k va n pl perm) = n"
  by (induction n arbitrary: va perm) (auto split: option.splits)

lemma table_rows_nth:
  "j < n \<Longrightarrow>
   \<exists>f rest. table_rows k va n pl perm ! j = Cprintf f (ArgU32 (va + of_nat j * PGSIZE) # rest)"
proof (induction n arbitrary: va perm j)
  case 0
  then show ?case by simp
next
  case (Suc n)
  show ?case
  proof (cases j)
    case 0
    then show ?thesis by (auto split: option.splits)
  next
    case (Suc i)
    with Suc.prems have i: "i < n" by simp
    have va: "va + of_nat (Suc i) * PGSIZE = (va + PGSIZE) + of_nat i * PGSIZE"
      by (simp add: algebra_simps)
    show ?thesis
      unfolding Suc va using Suc.IH [OF i, of "va + PGSIZE"]
      by (simp split: option.splits prod.splits)
  qed
qed

lemma mon_showmappings_one:
  assumes "length argv = 2" and "strtol k (argv ! 1) 16 = (A, e1)" and "deref e1 = NUL"
  shows "mon_showmappings k argv con =
           showmappings_table k (ROUNDDOWN (word_of_int A) PGSIZE)
             (ROUNDDOWN (word_of_int A) PGSIZE + PGSIZE) con"
  using assms by (simp add: mon_showmappings_def Let_def)

lemma mon_showmappings_two:
  assumes "length argv = 3" and "strtol k (argv ! 1) 16 = (A, e1)" and "deref e1 = NUL"
    and "strtol k (argv ! 2) 16 = (B, e2)" and "deref e2 = NUL"
  shows "mon_showmappings k argv con =
           showmappings_table k (ROUNDDOWN (word_of_int A) PGSIZE)
             (ROUNDUP (word_of_int B) PGSIZE) con"
  using assms by (simp add: mon_showmappings_def Let_def)

lemmas showmappings_eval =
  mon_showmappings_def showmappings_table_def showmappings_loop.simps perm_loop.simps
  strtol_hex_def hexval_def deref_def NUL_def ROUNDDOWN_def ROUNDUP_def PGSIZE_def PERM_def
  cprintf_def TAB_def Let_def table_header_def

text \<open>
  C8. When \<open>showmappings\<close> is called with one or two address arguments and the parser
  leaves a character of the first address unread, or of the second when there are two,
  the handler prints the wrong-address message and nothing else (no header, no row) and
  returns 0.
\<close>

theorem showmappings_wrong_address:
  assumes "length argv = 2 \<or> length argv = 3"
    and "deref (snd (strtol k (argv ! 1) 16)) \<noteq> NUL
         \<or> (length argv = 3 \<and> deref (snd (strtol k (argv ! 2) 16)) \<noteq> NUL)"
  shows "mon_showmappings k argv con = Some (0, con @ [Cprintf ''Wrong address!'' []])"
  using assms
  by (auto simp: mon_showmappings_def cprintf_def Let_def split: prod.splits)

theorem showmappings_wrong_address_witness:
  "mon_showmappings boot_kernel [''showmappings'', ''zz''] [] =
     Some (0, [Cprintf ''Wrong address!'' []])
   \<and> mon_showmappings boot_kernel [''showmappings'', ''1000'', ''30g0''] [] =
     Some (0, [Cprintf ''Wrong address!'' []])"
proof -
  have z: "deref (snd (strtol boot_kernel ([''showmappings'', ''zz''] ! 1) 16)) \<noteq> NUL"
    by (simp add: boot_kernel_def strtol_hex_def hexval_def deref_def NUL_def)
  have g: "deref (snd (strtol boot_kernel ([''showmappings'', ''1000'', ''30g0''] ! 2) 16)) \<noteq> NUL"
    by (simp add: boot_kernel_def strtol_hex_def hexval_def deref_def NUL_def)
  from showmappings_wrong_address [of "[''showmappings'', ''zz'']" boot_kernel "[]"] z
       showmappings_wrong_address [of "[''showmappings'', ''1000'', ''30g0'']" boot_kernel "[]"] g
  show ?thesis by simp
qed

text \<open>
  C3, as the claim states it, fails in two places. The single address \<open>fffff000\<close>
  parses cleanly, but \<open>begin + PGSIZE\<close> wraps to 0 and no row is printed. The two
  addresses \<open>3000\<close> and \<open>1000\<close> parse cleanly, \<open>end\<close> is below \<open>begin\<close> and no row
  is printed, while \<open>(end - begin) / 4096\<close> on 32-bit unsigned numbers is 1048574.
\<close>

theorem showmappings_no_row_at_top_or_reversed:
  "strtol boot_kernel ''fffff000'' 16 = (4294963200, [])
   \<and> mon_showmappings boot_kernel [''showmappings'', ''fffff000''] [] = Some (0, [table_header])
   \<and> strtol boot_kernel ''3000'' 16 = (12288, [])
   \<and> strtol boot_kernel ''1000'' 16 = (4096, [])
   \<and> mon_showmappings boot_kernel [''showmappings'', ''3000'', ''1000''] [] =
       Some (0, [table_header])
   \<and> unat ((0x1000 - 0x3000 :: uint32_t) div 4096) = 1048574"
  by (simp add: boot_kernel_def showmappings_eval)

text \<open>
  C3, amended. Let the address arguments parse cleanly, \<open>begin\<close> be the first rounded
  down to the page size and \<open>end\<close> be \<open>begin + 4096\<close> for one address and the second
  address rounded up for two, all on 32-bit unsigned numbers. Then the handler prints the
  header and one row for each of the pages \<open>begin\<close>, \<open>begin + 4096\<close>, ... below
  \<open>end\<close>, and returns 0. When \<open>begin \<le> end\<close> these are exactly
  \<open>(end - begin) / 4096\<close> rows, with nothing lost or added on aligned input; when
  \<open>end < begin\<close> there is no row. With one address there is exactly one row, unless
  \<open>begin\<close> is the last page 0xFFFFF000, where \<open>end\<close> wraps to 0.
\<close>

theorem showmappings_row_count:
  assumes "length argv = 2 \<or> length argv = 3"
    and "strtol k (argv ! 1) 16 = (A, e1)" and "deref e1 = NUL"
    and "length argv = 3 \<longrightarrow> strtol k (argv ! 2) 16 = (B, e2) \<and> deref e2 = NUL"
    and "begin = ROUNDDOWN (word_of_int A) PGSIZE"
    and "end = (if length argv = 2 then begin + PGSIZE else ROUNDUP (word_of_int B) PGSIZE)"
  shows "(\<exists>rows. mon_showmappings k argv con = Some (0, con @ table_header # rows)
            \<and> length rows = page_count begin end
            \<and> (\<forall>j < length rows. \<exists>f rest.
                  rows ! j = Cprintf f (ArgU32 (begin + of_nat j * PGSIZE) # rest)))
         \<and> (begin \<le> end \<longrightarrow> page_count begin end * 4096 = unat end - unat begin)
         \<and> (end < begin \<longrightarrow> page_count begin end = 0)
         \<and> (length argv = 2 \<and> begin \<noteq> 0xFFFFF000 \<longrightarrow> page_count begin end = 1)"
proof -
  have ab: "4096 dvd unat begin" unfolding assms(5) by (rule aligned_ROUNDDOWN)
  have ae: "4096 dvd unat end"
    unfolding assms(6) using ab aligned_next_page aligned_ROUNDUP by simp
  have run: "mon_showmappings k argv con = showmappings_table k begin end con"
  proof (cases "length argv = 2")
    case True
    then show ?thesis using mon_showmappings_one [OF True assms(2,3)] assms(5,6) by simp
  next
    case False
    with assms(1) have three: "length argv = 3" by simp
    with assms(4) have "strtol k (argv ! 2) 16 = (B, e2)" "deref e2 = NUL" by simp_all
    from mon_showmappings_two [OF three assms(2,3) this] show ?thesis
      using three assms(5,6) by simp
  qed
  let ?rows = "table_rows k begin (page_count begin end) 5 ''P/U/W''"
  have "mon_showmappings k argv con = Some (0, con @ table_header # ?rows)"
    unfolding run using ab ae by (rule showmappings_table_rows)
  moreover have "length ?rows = page_count begin end" by (rule length_table_rows)
  moreover have "\<forall>j < length ?rows. \<exists>f rest.
      ?rows ! j = Cprintf f (ArgU32 (begin + of_nat j * PGSIZE) # rest)"
    using table_rows_nth by (simp add: length_table_rows)
  ultimately have rows: "\<exists>rows. mon_showmappings k argv con = Some (0, con @ table_header # rows)
            \<and> length rows = page_count begin end
            \<and> (\<forall>j < length rows. \<exists>f rest.
                  rows ! j = Cprintf f (ArgU32 (begin + of_nat j * PGSIZE) # rest))"
    by blast
  have span: "begin \<le> end \<longrightarrow> page_count begin end * 4096 = unat end - unat begin"
  proof
    assume le: "begin \<le> end"
    show "page_count begin end * 4096 = unat end - unat begin"
    proof (cases "begin < end")
      case True
      with page_count_span [OF ab ae] show ?thesis by simp
    next
      case False
      with le have "begin = end" by simp
      then show ?thesis by (simp add: page_count_def)
    qed
  qed
  have none: "end < begin \<longrightarrow> page_count begin end = 0"
    by (auto simp: page_count_def)
  have one: "length argv = 2 \<and> begin \<noteq> 0xFFFFF000 \<longrightarrow> page_count begin end = 1"
  proof
    assume h: "length argv = 2 \<and> begin \<noteq> 0xFFFFF000"
    then have e: "end = begin + PGSIZE" using assms(6) by simp
    from h have "unat begin + 4096 < 4294967296" using top_page [OF ab] by simp
    then have u: "unat (begin + PGSIZE) = unat begin + 4096"
      by (simp add: unat_word_ariths unat_PGSIZE)
    then have "begin < begin + PGSIZE" by (simp add: word_less_nat_alt)
    with u e show "page_count begin end = 1" by (simp add: page_count_def)
  qed
  from rows span none one show ?thesis by blast
qed

theorem showmappings_row_count_witness:
  "(\<exists>rows. mon_showmappings boot_kernel [''showmappings'', ''1000'', ''3000''] [] =
              Some (0, table_header # rows) \<and> length rows = 2)
   \<and> (\<exists>rows. mon_showmappings boot_kernel [''showmappings'', ''1001''] [] =
              Some (0, table_header # rows) \<and> length rows = 1)"
proof -
  have a: "strtol boot_kernel ([''showmappings'', ''1000'', ''3000''] ! 1) 16 = (4096, [])"
    by (simp add: boot_kernel_def strtol_hex_def hexval_def)
  have b: "length [''showmappings'', ''1000'', ''3000''] = 3 \<longrightarrow>
      strtol boot_kernel ([''showmappings'', ''1000'', ''3000''] ! 2) 16 = (12288, [])
      \<and> deref [] = NUL"
    by (simp add: boot_kernel_def strtol_hex_def hexval_def deref_def)
  have c: "strtol boot_kernel ([''showmappings'', ''1001''] ! 1) 16 = (4097, [])"
    by (simp add: boot_kernel_def strtol_hex_def hexval_def)
  have n: "deref [] = NUL" by (simp add: deref_def)
  have two: "page_count 0x1000 0x3000 = 2" by (simp add: page_count_def)
  have one: "page_count 0x1000 0x2000 = 1" by (simp add: page_count_def)
  have "\<exists>rows. mon_showmappings boot_kernel [''showmappings'', ''1000'', ''3000''] [] =
              Some (0, [] @ table_header # rows) \<and> length rows = page_count 0x1000 0x3000"
    using showmappings_row_count
      [of "[''showmappings'', ''1000'', ''3000'']" boot_kernel 4096 "[]" 12288 "[]"
          "0x1000" "0x3000" "[]", OF _ a n b]
    by (auto simp: ROUNDDOWN_def ROUNDUP_def PGSIZE_def)
  moreover have "\<exists>rows. mon_showmappings boot_kernel [''showmappings'', ''1001''] [] =
              Some (0, [] @ table_header # rows) \<and> length rows = page_count 0x1000 0x2000"
    using showmappings_row_count
      [of "[''showmappings'', ''1001'']" boot_kernel 4097 "[]" 0 "[]" "0x1000" "0x2000" "[]",
       OF _ c n]
    by (auto simp: ROUNDDOWN_def ROUNDUP_def PGSIZE_def)
  ultimately show ?thesis unfolding two one by simp
qed

text \<open>On the template as declared, the inner loop writes the permission string of the entry.\<close>

lemma perm_loop_fresh: "perm_loop k pte 5 0 ''P/U/W'' = perm_string k pte"
  by (simp add: perm_loop.simps PERM_def perm_string_def)

text \<open>
  C2 on a range of two mapped pages: the page at 0 lacks the user flag and prints
  \<open>P/X/W\<close>; the page at 0x1000 has all three flags, so its own string is \<open>P/U/W\<close>,
  but its row shows \<open>P/X/W\<close>, the array \<open>perm\<close> as the first row left it. Asked for
  alone, the same page prints \<open>P/U/W\<close>.
\<close>

theorem showmappings_stale_permission:
  "mon_showmappings two_page_kernel [''showmappings'', ''0'', ''2000''] [] =
     Some (0, [table_header,
       Cprintf (''%08x'' @ TAB @ ''%08x'' @ TAB @ ''%s\<newline>'')
         [ArgU32 0, ArgU32 0x00100000, ArgStr ''P/X/W''],
       Cprintf (''%08x'' @ TAB @ ''%08x'' @ TAB @ ''%s\<newline>'')
         [ArgU32 0x1000, ArgU32 0x00101000, ArgStr ''P/X/W'']])
   \<and> page_lookup two_page_kernel 0x1000 = Some (0x00101000, 0x007)
   \<and> perm_string two_page_kernel 0x007 = ''P/U/W''
   \<and> mon_showmappings two_page_kernel [''showmappings'', ''1000''] [] =
     Some (0, [table_header,
       Cprintf (''%08x'' @ TAB @ ''%08x'' @ TAB @ ''%s\<newline>'')
         [ArgU32 0x1000, ArgU32 0x00101000, ArgStr ''P/U/W'']])"
  by (simp add: two_page_kernel_def boot_kernel_def showmappings_eval perm_string_def)

section \<open>The backtrace\<close>

lemma print_args_all:
  "print_args k ebp 0 con =
     con @ [Cprintf '' %08x'' [ArgU32 (load32 k (ebp + 8))],
            Cprintf '' %08x'' [ArgU32 (load32 k (ebp + 12))],
            Cprintf '' %08x'' [ArgU32 (load32 k (ebp + 16))],
            Cprintf '' %08x'' [ArgU32 (load32 k (ebp + 20))],
            Cprintf '' %08x'' [ArgU32 (load32 k (ebp + 24))]]"
  by (simp add: print_args.simps cprintf_def word_at_def)

lemma print_symbol_line: "print_symbol eip info con = con @ symbol_line eip info"
  by (simp add: print_symbol_def symbol_line_def cprintf_def)

text \<open>One round of the loop on a frame pointer that is not null.\<close>

lemma backtrace_loop_step:
  assumes "ebp \<noteq> 0" and "debuginfo_eip k (load32 k (ebp + 4)) info = (r, info')"
  shows "backtrace_loop k ebp info con calls =
           backtrace_loop k (load32 k ebp) info'
             (con @ frame_line k ebp @ (if r = 0 then symbol_line (load32 k (ebp + 4)) info' else []))
             (calls @ [(load32 k (ebp + 4), info)])"
proof -
  have w0: "word_at k ebp 0 = load32 k ebp"
    and w1: "word_at k ebp (Suc 0) = load32 k (ebp + 4)"
    by (simp_all add: word_at_def)
  show ?thesis
    using assms
    by (subst backtrace_loop.simps)
       (simp add: w0 w1 Let_def print_args_all print_symbol_line cprintf_def frame_line_def)
qed

text \<open>On a chain that ends in the null pointer the loop returns.\<close>

lemma backtrace_loop_chain:
  "frame_chain k ebp fs \<Longrightarrow>
   backtrace_loop k ebp info con calls =
     Some (con @ concat (map2 (\<lambda>f n. frame_line k f @ n) fs (frame_notes k info fs)),
           calls @ frame_lookups k info fs)"
proof (induction fs arbitrary: ebp info con calls)
  case Nil
  then show ?case by (subst backtrace_loop.simps) simp
next
  case (Cons f fs)
  then have ebp: "ebp \<noteq> 0" and f: "f = ebp" and rest: "frame_chain k (load32 k ebp) fs"
    by simp_all
  obtain r info' where d: "debuginfo_eip k (load32 k (ebp + 4)) info = (r, info')"
    by (cases "debuginfo_eip k (load32 k (ebp + 4)) info")
  show ?case
    unfolding backtrace_loop_step [OF ebp d] Cons.IH [OF rest]
    using d f by simp
qed

lemma frame_notes_length: "length (frame_notes k info fs) = length fs"
  by (induction fs arbitrary: info) (auto simp: Let_def split: prod.splits)

lemma frame_notes_kind:
  "n \<in> set (frame_notes k info fs) \<Longrightarrow> n = [] \<or> (\<exists>eip info'. n = symbol_line eip info')"
  by (induction fs arbitrary: info) (auto simp: Let_def split: prod.splits if_splits)

lemma frame_lookups_length: "length (frame_lookups k info fs) = length fs"
  by (induction fs arbitrary: info) (auto simp: Let_def)

lemma frame_lookups_eip:
  "i < length fs \<Longrightarrow> fst (frame_lookups k info fs ! i) = load32 k (fs ! i + 4)"
proof (induction fs arbitrary: info i)
  case Nil
  then show ?case by simp
next
  case (Cons f fs)
  then show ?case by (cases i) (auto simp: Let_def)
qed

lemma frame_lookups_first: "fs \<noteq> [] \<Longrightarrow> snd (frame_lookups k info fs ! 0) = info"
  by (cases fs) (auto simp: Let_def)

lemma frame_lookups_next:
  "Suc i < length fs \<Longrightarrow>
   snd (frame_lookups k info fs ! Suc i) =
     snd (debuginfo_eip k (fst (frame_lookups k info fs ! i)) (snd (frame_lookups k info fs ! i)))"
proof (induction fs arbitrary: info i)
  case Nil
  then show ?case by simp
next
  case (Cons f fs)
  show ?case
  proof (cases i)
    case 0
    with Cons.prems have "fs \<noteq> []" by auto
    then show ?thesis using 0 frame_lookups_first [of fs k] by (simp add: Let_def)
  next
    case (Suc j)
    with Cons.prems have "Suc j < length fs" by simp
    from Cons.IH [OF this] show ?thesis using Suc by (simp add: Let_def)
  qed
qed

lemma stack_chain:
  "frame_chain stack_kernel (read_ebp stack_kernel) [0xF010FF58, 0xF010FF78, 0xF010FFD8]"
  by (simp add: stack_kernel_def boot_kernel_def)

lemma stack_notes:
  "frame_notes stack_kernel zero_info [0xF010FF58, 0xF010FF78, 0xF010FFD8] =
     [symbol_line 0xF0100068 init_info, symbol_line 0xF01000A4 init_info, []]"
  by (simp add: stack_kernel_def boot_kernel_def Let_def)

lemma stack_lookups:
  "frame_lookups stack_kernel zero_info [0xF010FF58, 0xF010FF78, 0xF010FFD8] =
     [(0xF0100068, zero_info), (0xF01000A4, init_info), (0xF010003E, init_info)]"
  by (simp add: stack_kernel_def boot_kernel_def Let_def)

lemma stack_run:
  "backtrace_run stack_kernel [] =
     Some (frame_line stack_kernel 0xF010FF58 @ symbol_line 0xF0100068 init_info
             @ frame_line stack_kernel 0xF010FF78 @ symbol_line 0xF01000A4 init_info
             @ frame_line stack_kernel 0xF010FFD8,
           [(0xF0100068, zero_info), (0xF01000A4, init_info), (0xF010003E, init_info)])"
  unfolding backtrace_run_def backtrace_loop_chain [OF stack_chain] stack_notes stack_lookups
  by simp

text \<open>
  C5. When the frame pointers from \<open>read_ebp\<close> on form the chain \<open>fs\<close> that ends in
  the null pointer, \<open>mon_backtrace\<close> returns 0, and what it printed is, for the frames
  of \<open>fs\<close> in order, innermost first: the line of the frame (the frame pointer, the
  return address one word above it, the five words above that), followed by either
  nothing or the symbol line of a successful lookup.
\<close>

theorem backtrace_prints_frames:
  assumes "frame_chain k (read_ebp k) fs"
  shows "\<exists>notes. length notes = length fs
          \<and> mon_backtrace k argv con =
              Some (0, con @ concat (map2 (\<lambda>f n. frame_line k f @ n) fs notes))
          \<and> (\<forall>n \<in> set notes. n = [] \<or> (\<exists>eip info. n = symbol_line eip info))"
proof -
  let ?notes = "frame_notes k zero_info fs"
  have "mon_backtrace k argv con =
      Some (0, con @ concat (map2 (\<lambda>f n. frame_line k f @ n) fs ?notes))"
    by (simp add: mon_backtrace_def backtrace_run_def backtrace_loop_chain [OF assms])
  moreover have "length ?notes = length fs" by (rule frame_notes_length)
  moreover have "\<forall>n \<in> set ?notes. n = [] \<or> (\<exists>eip info. n = symbol_line eip info)"
    using frame_notes_kind by blast
  ultimately show ?thesis by blast
qed

theorem backtrace_prints_frames_witness:
  "frame_chain stack_kernel (read_ebp stack_kernel) [0xF010FF58, 0xF010FF78, 0xF010FFD8]
   \<and> mon_backtrace stack_kernel [''backtrace''] [] =
       Some (0, frame_line stack_kernel 0xF010FF58 @ symbol_line 0xF0100068 init_info
                @ frame_line stack_kernel 0xF010FF78 @ symbol_line 0xF01000A4 init_info
                @ frame_line stack_kernel 0xF010FFD8)
   \<and> frame_line stack_kernel 0xF010FF58 =
       [Cprintf ''ebp %08x eip %08x args'' [ArgU32 0xF010FF58, ArgU32 0xF0100068],
        Cprintf '' %08x'' [ArgU32 1], Cprintf '' %08x'' [ArgU32 0], Cprintf '' %08x'' [ArgU32 0],
        Cprintf '' %08x'' [ArgU32 0], Cprintf '' %08x'' [ArgU32 0], Cprintf ''\<newline>'' []]
   \<and> (\<exists>notes. length notes = 3
        \<and> mon_backtrace stack_kernel [''backtrace''] [] =
            Some (0, concat (map2 (\<lambda>f n. frame_line stack_kernel f @ n)
                                [0xF010FF58, 0xF010FF78, 0xF010FFD8] notes)))"
proof -
  from backtrace_prints_frames [OF stack_chain, of "[''backtrace'']" "[]"] obtain ns where
    l: "length ns = length [0xF010FF58, 0xF010FF78, 0xF010FFD8 :: uint32_t]"
    and r: "mon_backtrace stack_kernel [''backtrace''] [] =
      Some (0, [] @ concat (map2 (\<lambda>f n. frame_line stack_kernel f @ n)
                                [0xF010FF58, 0xF010FF78, 0xF010FFD8] ns))"
    by blast
  from l have "length ns = 3" by simp
  moreover from r have "mon_backtrace stack_kernel [''backtrace''] [] =
      Some (0, concat (map2 (\<lambda>f n. frame_line stack_kernel f @ n)
                                [0xF010FF58, 0xF010FF78, 0xF010FFD8] ns))"
    by (simp only: append_Nil)
  moreover have "mon_backtrace stack_kernel [''backtrace''] [] =
       Some (0, frame_line stack_kernel 0xF010FF58 @ symbol_line 0xF0100068 init_info
                @ frame_line stack_kernel 0xF010FF78 @ symbol_line 0xF01000A4 init_info
                @ frame_line stack_kernel 0xF010FFD8)"
    by (simp add: mon_backtrace_def stack_run)
  moreover have "frame_line stack_kernel 0xF010FF58 =
       [Cprintf ''ebp %08x eip %08x args'' [ArgU32 0xF010FF58, ArgU32 0xF0100068],
        Cprintf '' %08x'' [ArgU32 1], Cprintf '' %08x'' [ArgU32 0], Cprintf '' %08x'' [ArgU32 0],
        Cprintf '' %08x'' [ArgU32 0], Cprintf '' %08x'' [ArgU32 0], Cprintf ''\<newline>'' []]"
    by (simp add: frame_line_def stack_kernel_def boot_kernel_def)
  ultimately show ?thesis using stack_chain by blast
qed

text \<open>
  C4, as the claim states it, fails on a stack of three frames: the record is zeroed
  once, before the loop, so the lookups of the second and third frame receive the record
  that the lookup before them filled in, which is not the zero record.
\<close>

theorem backtrace_lookup_gets_previous_record:
  "map_option snd (backtrace_run stack_kernel []) =
     Some [(0xF0100068, zero_info), (0xF01000A4, init_info), (0xF010003E, init_info)]
   \<and> init_info \<noteq> zero_info"
  by (simp add: stack_run init_info_def zero_info_def)

text \<open>
  C4, amended. In \<open>mon_backtrace\<close> the record passed to the resolver is zero-initialized
  once, before the loop. On a frame chain that ends in the null pointer there is one
  lookup for each frame, in order, for the frame's return address; the first lookup
  receives the zero record, and every later one receives the record as the lookup of the
  frame before it left it.
\<close>

theorem backtrace_lookup_records:
  assumes "frame_chain k (read_ebp k) fs"
  shows "\<exists>con' calls. backtrace_run k con = Some (con', calls)
      \<and> length calls = length fs
      \<and> (\<forall>i < length fs. fst (calls ! i) = load32 k (fs ! i + 4))
      \<and> (fs \<noteq> [] \<longrightarrow> snd (calls ! 0) = zero_info)
      \<and> (\<forall>i. Suc i < length fs \<longrightarrow>
            snd (calls ! Suc i) = snd (debuginfo_eip k (fst (calls ! i)) (snd (calls ! i))))"
proof -
  let ?calls = "frame_lookups k zero_info fs"
  have "backtrace_run k con =
      Some (con @ concat (map2 (\<lambda>f n. frame_line k f @ n) fs (frame_notes k zero_info fs)), ?calls)"
    by (simp add: backtrace_run_def backtrace_loop_chain [OF assms])
  moreover have "length ?calls = length fs" by (rule frame_lookups_length)
  moreover have "\<forall>i < length fs. fst (?calls ! i) = load32 k (fs ! i + 4)"
    by (simp add: frame_lookups_eip)
  moreover have "fs \<noteq> [] \<longrightarrow> snd (?calls ! 0) = zero_info"
    by (simp add: frame_lookups_first)
  moreover have "\<forall>i. Suc i < length fs \<longrightarrow>
      snd (?calls ! Suc i) = snd (debuginfo_eip k (fst (?calls ! i)) (snd (?calls ! i)))"
    by (simp add: frame_lookups_next)
  ultimately show ?thesis by blast
qed

theorem backtrace_lookup_records_witness:
  "frame_chain stack_kernel (read_ebp stack_kernel) [0xF010FF58, 0xF010FF78, 0xF010FFD8]
   \<and> (\<exists>con' calls. backtrace_run stack_kernel [] = Some (con', calls)
         \<and> length calls = 3
         \<and> snd (calls ! 0) = zero_info
         \<and> snd (calls ! 1) = snd (debuginfo_eip stack_kernel (fst (calls ! 0)) (snd (calls ! 0))))"
proof -
  from backtrace_lookup_records [OF stack_chain, of "[]"] obtain con' calls where
    r: "backtrace_run stack_kernel [] = Some (con', calls)" and l: "length calls = 3"
    and z: "snd (calls ! 0) = zero_info"
    and n: "\<forall>i. Suc i < 3 \<longrightarrow>
            snd (calls ! Suc i) = snd (debuginfo_eip stack_kernel (fst (calls ! i)) (snd (calls ! i)))"
    by auto
  from n have "snd (calls ! 1) = snd (debuginfo_eip stack_kernel (fst (calls ! 0)) (snd (calls ! 0)))"
    by simp
  with r l z stack_chain show ?thesis by blast
qed

section \<open>What the registered handlers return\<close>

text \<open>A frame pointer that points at itself keeps the loop from ever returning.\<close>

lemma backtrace_loop_cycle:
  assumes "backtrace_loop k ebp info con calls = Some y"
  shows "\<not> (ebp \<noteq> 0 \<and> (\<forall>a. load32 k a = ebp))"
proof (rule backtrace_loop.raw_induct
    [where P = "\<lambda>k ebp info con calls y. \<not> (ebp \<noteq> 0 \<and> (\<forall>a. load32 k a = ebp))", OF _ assms])
  fix loop k ebp info con calls and y :: "console \<times> lookups"
  assume IH: "\<And>ebp info con calls b y. loop ebp info con calls b = Some y
                \<Longrightarrow> \<not> (info \<noteq> 0 \<and> (\<forall>a. load32 ebp a = info))"
    and body: "(if ebp \<noteq> 0 then
        (let eip = word_at k ebp 1;
             con1 = cprintf ''ebp %08x eip %08x args'' [ArgU32 ebp, ArgU32 eip] con;
             con2 = print_args k ebp 0 con1;
             con3 = cprintf ''\<newline>'' [] con2;
             (r, info') = debuginfo_eip k eip info;
             con4 = (if r = 0 then print_symbol eip info' con3 else con3)
         in loop k (word_at k ebp 0) info' con4 (calls @ [(eip, info)]))
      else Some (con, calls)) = Some y"
  show "\<not> (ebp \<noteq> 0 \<and> (\<forall>a. load32 k a = ebp))"
  proof
    assume c: "ebp \<noteq> 0 \<and> (\<forall>a. load32 k a = ebp)"
    then have w: "word_at k ebp 0 = ebp" by (simp add: word_at_def)
    from body c obtain info' con' calls' where "loop k (word_at k ebp 0) info' con' calls' = Some y"
      by (auto simp: Let_def split: prod.splits)
    then have "\<not> (word_at k ebp 0 \<noteq> 0 \<and> (\<forall>a. load32 k a = word_at k ebp 0))" by (rule IH)
    with c w show False by simp
  qed
qed

lemma showmappings_table_zero:
  assumes "4096 dvd unat b" "4096 dvd unat e"
  shows "\<exists>con'. showmappings_table k b e con = Some (0, con')"
  using showmappings_table_rows [OF assms] by blast

lemma mon_showmappings_zero: "\<exists>con'. mon_showmappings k argv con = Some (0, con')"
proof -
  obtain A e1 where s1: "strtol k (argv ! 1) 16 = (A, e1)" by (cases "strtol k (argv ! 1) 16")
  obtain B e2 where s2: "strtol k (argv ! 2) 16 = (B, e2)" by (cases "strtol k (argv ! 2) 16")
  let ?b = "ROUNDDOWN (word_of_int A) PGSIZE"
  have ab: "4096 dvd unat ?b" by (rule aligned_ROUNDDOWN)
  have t1: "\<exists>con'. showmappings_table k ?b (?b + PGSIZE) con = Some (0, con')"
    using ab aligned_next_page [OF ab] by (rule showmappings_table_zero)
  have t2: "\<exists>con'. showmappings_table k ?b (ROUNDUP (word_of_int B) PGSIZE) con = Some (0, con')"
    using ab aligned_ROUNDUP by (rule showmappings_table_zero)
  consider "length argv = 1 \<or> length argv > 3" | "length argv = 0"
    | "length argv = 2" | "length argv = 3" by linarith
  then show ?thesis
  proof cases
    case 1
    then show ?thesis by (auto simp: mon_showmappings_def)
  next
    case 2
    then show ?thesis by (simp add: mon_showmappings_def)
  next
    case 3
    show ?thesis
    proof (cases "deref e1 = NUL")
      case True
      from mon_showmappings_one [OF 3 s1 True] t1 show ?thesis by simp
    next
      case False
      then show ?thesis using 3 s1 by (simp add: mon_showmappings_def Let_def)
    qed
  next
    case 4
    show ?thesis
    proof (cases "deref e1 = NUL \<and> deref e2 = NUL")
      case True
      then have "deref e1 = NUL" "deref e2 = NUL" by simp_all
      from mon_showmappings_two [OF 4 s1 this(1) s2 this(2)] t2 show ?thesis by simp
    next
      case False
      then show ?thesis using 4 s1 s2 by (auto simp: mon_showmappings_def Let_def)
    qed
  qed
qed

lemma mon_backtrace_zero: "mon_backtrace k argv con = Some (r, con') \<Longrightarrow> r = 0"
  by (auto simp: mon_backtrace_def split: option.splits prod.splits)

lemma lookup_commands_zero:
  assumes "lookup commands k argv con = Some (r, con')"
  shows "r = 0"
proof -
  from mon_showmappings_zero [of k argv con] obtain c where
    "mon_showmappings k argv con = Some (0, c)" by blast
  with assms show ?thesis
    by (auto simp: commands_def mon_help_def mon_kerninfo_def Let_def
        dest: mon_backtrace_zero split: if_splits)
qed

lemma runcmd_commands_zero:
  assumes "runcmd commands k buf con = Some (r, con')"
  shows "r = 0"
  using assms
  by (auto simp: runcmd_def dest: lookup_commands_zero split: option.splits if_splits)

lemma monitor_loop_commands: "monitor_loop commands k lines con \<noteq> Returned con' rest"
proof (induction lines arbitrary: con)
  case Nil
  show ?case by simp
next
  case (Cons l lines)
  show ?case
  proof (cases l)
    case None
    then show ?thesis using Cons.IH by simp
  next
    case (Some buf)
    show ?thesis
    proof (cases "runcmd commands k buf con")
      case None
      with Some show ?thesis by simp
    next
      case run: (Some p)
      obtain r c where p: "p = (r, c)" by (cases p)
      with run have "r = 0" using runcmd_commands_zero by blast
      with Some run p Cons.IH show ?thesis by simp
    qed
  qed
qed

text \<open>
  C10, as the claim states it, fails for \<open>mon_backtrace\<close> on a frame pointer that
  points at itself: the handler never returns, so it does not return 0.
\<close>

theorem backtrace_never_returns_on_cycle:
  "mon_backtrace loop_kernel [''backtrace''] [] = None"
proof -
  have "backtrace_run loop_kernel [] = None"
  proof (cases "backtrace_run loop_kernel []")
    case None
    then show ?thesis .
  next
    case (Some y)
    then have "\<not> (read_ebp loop_kernel \<noteq> 0 \<and> (\<forall>a. load32 loop_kernel a = read_ebp loop_kernel))"
      unfolding backtrace_run_def by (rule backtrace_loop_cycle)
    then show ?thesis by (simp add: loop_kernel_def boot_kernel_def)
  qed
  then show ?thesis by (simp add: mon_backtrace_def)
qed

text \<open>
  C10, amended. \<open>mon_help\<close>, \<open>mon_kerninfo\<close> and \<open>mon_showmappings\<close> return 0 on
  every invocation. \<open>mon_backtrace\<close> returns 0 whenever it returns, and it returns
  whenever the frame chain ends in the null pointer. So every value that \<open>runcmd\<close>
  returns with the registered table is 0, and the monitor loop never returns, on any
  sequence of lines.
\<close>

theorem handlers_return_zero:
  "(\<exists>con'. mon_help k argv con = Some (0, con'))
   \<and> (\<exists>con'. mon_kerninfo k argv con = Some (0, con'))
   \<and> (\<exists>con'. mon_showmappings k argv con = Some (0, con'))
   \<and> (\<forall>r con'. mon_backtrace k argv con = Some (r, con') \<longrightarrow> r = 0)
   \<and> (\<forall>fs. frame_chain k (read_ebp k) fs \<longrightarrow> (\<exists>con'. mon_backtrace k argv con = Some (0, con')))
   \<and> (\<forall>r con'. runcmd commands k buf con = Some (r, con') \<longrightarrow> r = 0)
   \<and> (\<forall>con' rest. monitor_loop commands k lines con \<noteq> Returned con' rest)
   \<and> (\<forall>con' rest. monitor commands k lines \<noteq> Returned con' rest)"
proof (intro conjI allI impI)
  show "\<exists>con'. mon_help k argv con = Some (0, con')" by (simp add: mon_help_def)
  show "\<exists>con'. mon_kerninfo k argv con = Some (0, con')" by (simp add: mon_kerninfo_def Let_def)
  show "\<exists>con'. mon_showmappings k argv con = Some (0, con')" by (rule mon_showmappings_zero)
  show "r = 0" if "mon_backtrace k argv con = Some (r, con')" for r con'
    using that by (rule mon_backtrace_zero)
  show "\<exists>con'. mon_backtrace k argv con = Some (0, con')" if "frame_chain k (read_ebp k) fs" for fs
    by (simp add: mon_backtrace_def backtrace_run_def backtrace_loop_chain [OF that])
  show "r = 0" if "runcmd commands k buf con = Some (r, con')" for r con'
    using that by (rule runcmd_commands_zero)
  show "monitor_loop commands k lines con \<noteq> Returned con' rest" for con' rest
    by (rule monitor_loop_commands)
  show "monitor commands k lines \<noteq> Returned con' rest" for con' rest
    unfolding monitor_def by (rule monitor_loop_commands)
qed

theorem handlers_return_zero_witness:
  "frame_chain boot_kernel (read_ebp boot_kernel) []
   \<and> (\<exists>con'. mon_backtrace boot_kernel [''backtrace''] [] = Some (0, con'))
   \<and> runcmd commands boot_kernel ''help'' [] = Some (0, mon_help_loop command_info [])
   \<and> monitor_loop commands boot_kernel [Some ''backtrace'', Some ''showmappings zz''] []
       \<noteq> Returned [] []"
proof -
  have c: "frame_chain boot_kernel (read_ebp boot_kernel) []" by (simp add: boot_kernel_def)
  have h: "runcmd commands boot_kernel ''help'' [] = Some (0, mon_help_loop command_info [])"
    by (simp add: runcmd_def string_eval commands_def mon_help_def)
  from handlers_return_zero [of boot_kernel "[''backtrace'']" "[]" "''help''"
               "[Some ''backtrace'', Some ''showmappings zz'']"] c h
  show ?thesis by blast
qed



end
